theory Spec2Isabelle
  imports Complex_Main "HOL-Library.Word"
begin

unbundle bit_operations_syntax

section \<open>Ring transport (spsc.h, class SpscRing)\<close>

text \<open>
  \<open>SpscRing<T, N>\<close> is an array of \<open>N\<close> slots and two cursors. The template parameter
  \<open>N\<close> is passed to every operation. The cursors are \<open>size_t\<close>; every value stored in
  them is masked with \<open>N - 1\<close>, and \<open>head + 1\<close> cannot overflow for a power of two
  \<open>N\<close> that fits \<open>size_t\<close>, so they are modelled as \<open>nat\<close> with the mask written as in
  the source. The memory orders of the atomics play no role in sequential use.
\<close>

text \<open>The members \<open>ring_buffer_\<close>, \<open>head_\<close> and \<open>tail_\<close>, without the trailing underscore.\<close>

record 'a SpscRing =
  ring_buffer :: "'a list"
  head :: nat
  tail :: nat

text \<open>The freshly constructed ring: value-initialised slots (\<open>d\<close>), both cursors 0.\<close>

definition SpscRing_init :: "nat \<Rightarrow> 'a \<Rightarrow> 'a SpscRing" where
  "SpscRing_init N d = \<lparr>ring_buffer = replicate N d, head = 0, tail = 0\<rparr>"

definition push :: "nat \<Rightarrow> 'a \<Rightarrow> 'a SpscRing \<Rightarrow> bool \<times> 'a SpscRing" where
  "push N v r =
     (let h = head r;
          nxt = (h + 1) AND (N - 1)
      in if nxt = tail r then (False, r)
         else (True, r\<lparr>ring_buffer := (ring_buffer r)[h := v], head := nxt\<rparr>))"

definition push_overwrite :: "nat \<Rightarrow> 'a \<Rightarrow> 'a SpscRing \<Rightarrow> bool \<times> 'a SpscRing" where
  "push_overwrite N v r =
     (let h = head r;
          nxt = (h + 1) AND (N - 1);
          overwriten = (nxt = tail r);
          r1 = (if overwriten then r\<lparr>tail := (tail r + 1) AND (N - 1)\<rparr> else r);
          r2 = r1\<lparr>ring_buffer := (ring_buffer r1)[h := v]\<rparr>;
          r3 = r2\<lparr>head := nxt\<rparr>
      in (\<not> overwriten, r3))"

definition pop :: "nat \<Rightarrow> 'a SpscRing \<Rightarrow> 'a option \<times> 'a SpscRing" where
  "pop N r =
     (let t = tail r
      in if t = head r then (None, r)
         else (Some (ring_buffer r ! t), r\<lparr>tail := (t + 1) AND (N - 1)\<rparr>))"

text \<open>
  \<open>pop_batch\<close> pops while fewer than \<open>max_batch\<close> elements were taken and \<open>pop\<close>
  succeeds; the model returns the elements written to \<open>out\<close> (their number is the
  source's return value).
\<close>

fun pop_batch :: "nat \<Rightarrow> nat \<Rightarrow> 'a SpscRing \<Rightarrow> 'a list \<times> 'a SpscRing" where
  "pop_batch N 0 r = ([], r)"
| "pop_batch N (Suc m) r =
     (case pop N r of
        (None, r') \<Rightarrow> ([], r')
      | (Some x, r') \<Rightarrow> (case pop_batch N m r' of (xs, r'') \<Rightarrow> (x # xs, r'')))"

definition size_approx :: "nat \<Rightarrow> 'a SpscRing \<Rightarrow> nat" where
  "size_approx N r = (head r + N - tail r) mod N"

text \<open>
  A sequence of producer calls: the ring after pushing the values in order, and the
  return value of every \<open>push_overwrite\<close> call.
\<close>

fun push_all :: "nat \<Rightarrow> 'a list \<Rightarrow> 'a SpscRing \<Rightarrow> bool list \<times> 'a SpscRing" where
  "push_all N [] r = ([], r)"
| "push_all N (v # vs) r =
     (case push_overwrite N v r of
        (ok, r') \<Rightarrow> (case push_all N vs r' of (oks, r'') \<Rightarrow> (ok # oks, r'')))"

subsection \<open>The queue a ring represents\<close>

definition ring_ok :: "nat \<Rightarrow> 'a SpscRing \<Rightarrow> bool" where
  "ring_ok N r = (length (ring_buffer r) = N \<and> head r < N \<and> tail r < N)"

definition ring_len :: "nat \<Rightarrow> 'a SpscRing \<Rightarrow> nat" where
  "ring_len N r = (if tail r \<le> head r then head r - tail r else head r + N - tail r)"

definition contents :: "nat \<Rightarrow> 'a SpscRing \<Rightarrow> 'a list" where
  "contents N r = map (\<lambda>i. ring_buffer r ! ((tail r + i) mod N)) [0..<ring_len N r]"

text \<open>The successor of a cursor, and the last \<open>n\<close> elements of a list.\<close>

definition wrap_succ :: "nat \<Rightarrow> nat \<Rightarrow> nat" where
  "wrap_succ N h = (if h + 1 = N then 0 else h + 1)"

definition keep_last :: "nat \<Rightarrow> 'a list \<Rightarrow> 'a list" where
  "keep_last n xs = drop (length xs - n) xs"

section \<open>Shared types (process_runner.h, sampler.h, config_settings.h)\<close>

type_synonym u64 = "64 word"
type_synonym u32 = "32 word"
type_synonym u16 = "16 word"

datatype StateAction = Continue | Done | Abort

datatype Event = Ev_None | Ev_Warmup | Ev_Ready | Ev_Processing | Ev_Cooldown | Ev_Analyzed

record 'r StepResult =
  action :: StateAction
  event :: Event
  result :: 'r

definition StepResult_default :: "'r \<Rightarrow> 'r StepResult" where
  "StepResult_default r = \<lparr>action = Continue, event = Ev_None, result = r\<rparr>"

record Sample =
  t_us :: u64
  raw :: "16 word"
  volts :: real

definition get_volts :: "Sample \<Rightarrow> real" where
  "get_volts sample = volts sample"

record Analyzer_Config =
  window_micro :: u32
  min_window_sample_size :: nat
  stddev_max :: real
  drift_per_sec_max :: real
  stable_consecutive_windows_req :: nat

record BreathAnalyzer_Config =
  warmup_stable_windows :: u16
  cooldown_stable_windows :: u16
  min_blow_time_us :: u32
  max_blow_time_us :: u32
  start_delta_v :: real
  end_delta_v :: real
  baseline_alpha :: real
  start_k_sigma :: real
  end_k_sigma :: real
  ready_delta_v :: real
  ready_k_sigma :: real

section \<open>Welford statistics (analyzer.h, struct WelfordStats)\<close>

record WelfordStats =
  num_samples :: nat
  mean :: real
  m2 :: real

definition WelfordStats_reset :: WelfordStats where
  "WelfordStats_reset = \<lparr>num_samples = 0, mean = 0, m2 = 0\<rparr>"

definition WelfordStats_push :: "real \<Rightarrow> WelfordStats \<Rightarrow> WelfordStats" where
  "WelfordStats_push v s =
     (let n = num_samples s + 1;
          delta = v - mean s;
          mean' = mean s + delta / real n;
          delta2 = v - mean';
          m2' = m2 s + delta * delta2
      in \<lparr>num_samples = n, mean = mean', m2 = m2'\<rparr>)"

definition variance_sample :: "WelfordStats \<Rightarrow> real" where
  "variance_sample s = (if num_samples s > 1 then m2 s / real (num_samples s - 1) else 0)"

definition stddev_sample :: "WelfordStats \<Rightarrow> real" where
  "stddev_sample s = sqrt (variance_sample s)"

record WindowResult =
  stable :: bool
  mean :: real
  stddev :: real
  mean_prev :: "real option"
  drift_per_sec :: real
  window_start_us :: u64
  window_end_us :: u64


definition WindowResult_default :: WindowResult where
  "WindowResult_default =
     \<lparr>stable = False, mean = 0, stddev = 0, mean_prev = Some 0, drift_per_sec = 0,
      window_start_us = 0, window_end_us = 0\<rparr>"

section \<open>Window analyzer (analyzer.h and analyzer.cpp, class WelfordAnalyzer)\<close>

record WelfordAnalyzer =
  cfg :: Analyzer_Config
  WfS :: WelfordStats
  stable_window_count :: nat
  window_start_micro_sec :: u64
  window_end_micro_sec :: u64
  prev_window_mean :: "real option"

definition WelfordAnalyzer_init :: "Analyzer_Config \<Rightarrow> WelfordAnalyzer" where
  "WelfordAnalyzer_init n_cfg =
     \<lparr>cfg = n_cfg, WfS = WelfordStats_reset, stable_window_count = 0,
      window_start_micro_sec = 0, window_end_micro_sec = 0, prev_window_mean = None\<rparr>"

definition us_to_sec :: real where
  "us_to_sec = 1000000"

definition FinalizeWindow :: "WelfordAnalyzer \<Rightarrow> WindowResult StepResult \<times> WelfordAnalyzer" where
  "FinalizeWindow a =
     (let w0 = WindowResult_default
                 \<lparr>window_start_us := window_start_micro_sec a,
                  window_end_us := window_start_micro_sec a + ucast (window_micro (cfg a))\<rparr>;
          num = num_samples (WfS a)
      in if num < min_window_sample_size (cfg a)
         then (StepResult_default
                 (w0\<lparr>stable := False,
                     WindowResult.mean := WelfordStats.mean (WfS a),
                     stddev := stddev_sample (WfS a),
                     mean_prev := prev_window_mean a,
                     drift_per_sec := 0\<rparr>),
               a\<lparr>stable_window_count := 0\<rparr>)
         else
           (let mean = WelfordStats.mean (WfS a);
                standard_deviation = stddev_sample (WfS a);
                drift = (case prev_window_mean a of
                           None \<Rightarrow> 0
                         | Some prev \<Rightarrow>
                             \<bar>mean - prev\<bar> / (real (unat (window_micro (cfg a))) / us_to_sec));
                bWindowStable =
                  (standard_deviation \<le> stddev_max (cfg a)
                   \<and> (prev_window_mean a = None \<or> drift \<le> drift_per_sec_max (cfg a)));
                cnt = (if bWindowStable then stable_window_count a + 1 else 0)
            in (StepResult_default
                  (w0\<lparr>WindowResult.mean := mean,
                      stddev := standard_deviation,
                      mean_prev := prev_window_mean a,
                      drift_per_sec := drift,
                      stable := (cnt \<ge> stable_consecutive_windows_req (cfg a))\<rparr>),
                a\<lparr>stable_window_count := cnt, prev_window_mean := Some mean\<rparr>)))"

partial_function (option) AnalyzeSample_loop ::
  "u64 \<Rightarrow> WelfordAnalyzer \<Rightarrow> WindowResult StepResult \<Rightarrow> WindowResult StepResult list
     \<Rightarrow> (WelfordAnalyzer \<times> WindowResult StepResult \<times> WindowResult StepResult list) option"
where
  "AnalyzeSample_loop t a out finalized =
     (if t - window_start_micro_sec a \<ge> ucast (window_micro (cfg a))
      then (case FinalizeWindow a of
              (w, a1) \<Rightarrow>
                AnalyzeSample_loop t
                  (a1\<lparr>window_start_micro_sec :=
                        window_start_micro_sec a1 + ucast (window_micro (cfg a1)),
                      WfS := WelfordStats_reset\<rparr>)
                  w (finalized @ [w]))
      else Some (a, out, finalized))"

declare AnalyzeSample_loop.simps [code]

definition AnalyzeSample_finalized ::
  "u64 \<Rightarrow> real \<Rightarrow> WelfordAnalyzer
     \<Rightarrow> (WindowResult StepResult \<times> WindowResult StepResult list \<times> WelfordAnalyzer) option"
where
  "AnalyzeSample_finalized t_micro sample a =
     (let a0 = (if window_start_micro_sec a = 0
                then a\<lparr>window_start_micro_sec := t_micro\<rparr> else a)
      in case AnalyzeSample_loop t_micro a0 (StepResult_default WindowResult_default) [] of
           None \<Rightarrow> None
         | Some (a1, out, finalized) \<Rightarrow>
             Some (out, finalized,
                   a1\<lparr>WfS := WelfordStats_push sample (WfS a1),
                      window_end_micro_sec := t_micro\<rparr>))"

definition AnalyzeSample ::
  "u64 \<Rightarrow> real \<Rightarrow> WelfordAnalyzer \<Rightarrow> (WindowResult StepResult \<times> WelfordAnalyzer) option"
where
  "AnalyzeSample t_micro sample a =
     (case AnalyzeSample_finalized t_micro sample a of
        None \<Rightarrow> None
      | Some (out, finalized, a') \<Rightarrow> Some (out, a'))"

fun AnalyzeBatch_from ::
  "Sample list \<Rightarrow> (Sample \<Rightarrow> real) \<Rightarrow> WindowResult StepResult \<Rightarrow> WelfordAnalyzer
     \<Rightarrow> (WindowResult StepResult \<times> WelfordAnalyzer) option"
where
  "AnalyzeBatch_from [] get_value last_finalized a = Some (last_finalized, a)"
| "AnalyzeBatch_from (s # ss) get_value last_finalized a =
     (case AnalyzeSample (t_us s) (get_value s) a of
        None \<Rightarrow> None
      | Some (step, a') \<Rightarrow>
          if window_end_us (result step) = 0
          then AnalyzeBatch_from ss get_value last_finalized a'
          else if stable (result step) then Some (step, a')
          else AnalyzeBatch_from ss get_value step a')"

definition AnalyzeBatch ::
  "Sample list \<Rightarrow> (Sample \<Rightarrow> real) \<Rightarrow> WelfordAnalyzer
     \<Rightarrow> (WindowResult StepResult \<times> WelfordAnalyzer) option"
where
  "AnalyzeBatch Samples get_value a =
     AnalyzeBatch_from Samples get_value (StepResult_default WindowResult_default) a"

section \<open>Breath state machine (analyzer.h and analyzer.cpp, class BreathAnalyzer)\<close>

datatype BreathAnalyzerState =
  St_None | St_Warmup | St_Ready | St_Processing | St_Cooldown | St_Analyzed

record BreathEvent =
  start_us :: u64
  end_us :: u64
  peak_voltage :: real
  State :: BreathAnalyzerState

definition BreathEvent_default :: BreathEvent where
  "BreathEvent_default = \<lparr>start_us = 0, end_us = 0, peak_voltage = 0, State = St_Warmup\<rparr>"

record BreathResult =
  baseline_mean :: real
  baseline_std :: real
  peak_volts :: real
  last_window :: WindowResult

definition BreathResult_default :: BreathResult where
  "BreathResult_default =
     \<lparr>baseline_mean = 0, baseline_std = 0, peak_volts = 0, last_window = WindowResult_default\<rparr>"

record BreathAnalyzer =
  bcfg :: BreathAnalyzer_Config
  breath_state :: BreathAnalyzerState
  baseline_stable_count :: u32
  cooldown_stable_count :: u32
  breath_start_us :: u64
  cooldown_start_us :: u64
  analyzed_end_us :: u64
  cur_peak_voltage :: real
  bWarmedup :: bool
  bFoundbaseline :: bool
  bFreezebaseline :: bool

definition BreathAnalyzer_init :: "BreathAnalyzer_Config \<Rightarrow> BreathAnalyzer" where
  "BreathAnalyzer_init b_cfg =
     \<lparr>bcfg = b_cfg, breath_state = St_Warmup, baseline_stable_count = 0,
      cooldown_stable_count = 0, breath_start_us = 0, cooldown_start_us = 0,
      analyzed_end_us = 0, cur_peak_voltage = 0, bWarmedup = False, bFoundbaseline = False,
      bFreezebaseline = False\<rparr>"

definition UpdateBaseline ::
  "WindowResult \<Rightarrow> BreathAnalyzer \<Rightarrow> BreathResult \<Rightarrow> BreathAnalyzer \<times> BreathResult" where
  "UpdateBaseline breathwindow s breathresult =
     (if bFreezebaseline s then (s, breathresult)
      else if \<not> stable breathwindow then (s, breathresult)
      else
        (let alpha = baseline_alpha (bcfg s);
             first = (\<not> bFoundbaseline s);
             s1 = (if first then s\<lparr>bFoundbaseline := True, baseline_stable_count := 1\<rparr> else s);
             r1 = (if first
                   then breathresult\<lparr>baseline_mean := WindowResult.mean breathwindow,
                                     baseline_std := stddev breathwindow\<rparr>
                   else breathresult);
             r2 = r1\<lparr>baseline_mean :=
                        (1 - alpha) * baseline_mean r1 + alpha * WindowResult.mean breathwindow\<rparr>;
             r3 = r2\<lparr>baseline_std :=
                        (1 - alpha) * baseline_std r2 + alpha * stddev breathwindow\<rparr>;
             s2 = (if \<not> bWarmedup s1
                   then s1\<lparr>baseline_stable_count := baseline_stable_count s1 + 1\<rparr> else s1)
         in (s2, r3)))"

definition Warmup :: "BreathAnalyzer \<Rightarrow> bool \<times> BreathAnalyzer" where
  "Warmup s =
     (if bFoundbaseline s \<and> baseline_stable_count s \<ge> ucast (warmup_stable_windows (bcfg s))
      then (False, s\<lparr>bWarmedup := True, breath_state := St_Ready, baseline_stable_count := 0\<rparr>)
      else (False, s\<lparr>breath_state := St_Warmup\<rparr>))"

definition Ready ::
  "WindowResult \<Rightarrow> BreathAnalyzer \<Rightarrow> BreathResult \<Rightarrow> real
     \<Rightarrow> bool \<times> BreathAnalyzer \<times> BreathResult" where
  "Ready breathwindow s breathresult start_threshold =
     (if WindowResult.mean breathwindow < start_threshold then (False, s, breathresult)
      else
        (let s1 = s\<lparr>breath_state := St_Processing,
                    breath_start_us :=
                      (if window_start_us breathwindow \<noteq> 0 then window_start_us breathwindow
                       else window_end_us breathwindow),
                    cur_peak_voltage := WindowResult.mean breathwindow\<rparr>;
             r1 = breathresult\<lparr>peak_volts := cur_peak_voltage s1\<rparr>
         in (False, s1\<lparr>cooldown_stable_count := 0\<rparr>, r1)))"

definition Processing ::
  "WindowResult \<Rightarrow> BreathAnalyzer \<Rightarrow> BreathResult \<Rightarrow> real \<Rightarrow> BreathEvent
     \<Rightarrow> bool \<times> BreathAnalyzer \<times> BreathResult \<times> BreathEvent" where
  "Processing breathwindow s breathresult end_threshold out_event =
     (let s1 = s\<lparr>cur_peak_voltage :=
                    max (cur_peak_voltage s) (WindowResult.mean breathwindow)\<rparr>;
          r1 = breathresult\<lparr>peak_volts := cur_peak_voltage s1\<rparr>;
          elapsed = window_end_us breathwindow - breath_start_us s1;
          falling_edge = (WindowResult.mean breathwindow \<le> end_threshold);
          blowtimeout = (elapsed \<ge> ucast (max_blow_time_us (bcfg s1)))
      in if \<not> falling_edge \<and> \<not> blowtimeout then (False, s1, r1, out_event)
         else if elapsed < ucast (min_blow_time_us (bcfg s1))
         then (False,
               s1\<lparr>breath_state := St_Cooldown,
                   cooldown_start_us := window_end_us breathwindow,
                   cooldown_stable_count := 0\<rparr>,
               r1, out_event)
         else (True,
               s1\<lparr>analyzed_end_us := window_end_us breathwindow, breath_state := St_Analyzed\<rparr>,
               r1,
               out_event\<lparr>start_us := breath_start_us s1,
                          end_us := window_end_us breathwindow,
                          peak_voltage := cur_peak_voltage s1\<rparr>))"

definition Cooldown ::
  "WindowResult \<Rightarrow> BreathAnalyzer \<Rightarrow> BreathResult \<Rightarrow> real
     \<Rightarrow> bool \<times> BreathAnalyzer \<times> BreathResult" where
  "Cooldown breathwindow s breathresult ready_threshold =
     (if stable breathwindow \<and> WindowResult.mean breathwindow \<le> ready_threshold
      then
        (let s1 = s\<lparr>cooldown_stable_count := cooldown_stable_count s + 1\<rparr>
         in if cooldown_stable_count s1 \<ge> ucast (cooldown_stable_windows (bcfg s1))
            then (False,
                  s1\<lparr>breath_state := St_Ready, cooldown_stable_count := 0,
                      cur_peak_voltage := 0\<rparr>,
                  breathresult\<lparr>peak_volts := 0\<rparr>)
            else (False, s1, breathresult))
      else (False, s\<lparr>cooldown_stable_count := 0\<rparr>, breathresult))"

definition AnalyzeBreath ::
  "WindowResult \<Rightarrow> BreathAnalyzer \<Rightarrow> BreathResult
     \<Rightarrow> bool \<times> BreathAnalyzer \<times> BreathResult \<times> BreathEvent" where
  "AnalyzeBreath breathwindow s breathresult0 =
     (let out_event = BreathEvent_default;
          breathresult = breathresult0\<lparr>last_window := breathwindow\<rparr>
      in if window_end_us breathwindow = 0 then (False, s, breathresult, out_event)
         else if \<not> bWarmedup s
         then (case UpdateBaseline breathwindow (s\<lparr>bFreezebaseline := False\<rparr>) breathresult of
                 (s1, r1) \<Rightarrow> (case Warmup s1 of (b, s2) \<Rightarrow> (b, s2, r1, out_event)))
         else
           (let start_threshold = baseline_mean breathresult + start_delta_v (bcfg s)
                                    + start_k_sigma (bcfg s) * baseline_std breathresult;
                end_threshold = baseline_mean breathresult + end_delta_v (bcfg s)
                                    + end_k_sigma (bcfg s) * baseline_std breathresult;
                ready_threshold = baseline_mean breathresult + ready_delta_v (bcfg s)
                                    + ready_k_sigma (bcfg s) * baseline_std breathresult
            in case breath_state s of
                 St_Ready \<Rightarrow>
                   (case UpdateBaseline breathwindow (s\<lparr>bFreezebaseline := False\<rparr>) breathresult of
                      (s1, r1) \<Rightarrow>
                        (case Ready breathwindow s1 r1 start_threshold of
                           (b, s2, r2) \<Rightarrow> (b, s2, r2, out_event\<lparr>State := St_Ready\<rparr>)))
               | St_Processing \<Rightarrow>
                   Processing breathwindow (s\<lparr>bFreezebaseline := True\<rparr>) breathresult
                     end_threshold (out_event\<lparr>State := St_Processing\<rparr>)
               | St_Analyzed \<Rightarrow>
                   (False, s\<lparr>breath_state := St_Cooldown, cooldown_stable_count := 0\<rparr>,
                    breathresult,
                    out_event\<lparr>State := St_Analyzed, peak_voltage := peak_volts breathresult\<rparr>)
               | St_Cooldown \<Rightarrow>
                   (case UpdateBaseline breathwindow (s\<lparr>bFreezebaseline := False\<rparr>) breathresult of
                      (s1, r1) \<Rightarrow>
                        (case Cooldown breathwindow s1 r1 ready_threshold of
                           (b, s2, r2) \<Rightarrow> (b, s2, r2, out_event\<lparr>State := St_Cooldown\<rparr>)))
               | St_Warmup \<Rightarrow> (False, s, breathresult, out_event\<lparr>State := St_Cooldown\<rparr>)
               | St_None \<Rightarrow> (False, s, breathresult, out_event\<lparr>State := St_Cooldown\<rparr>)))"

section \<open>Runtime processor (processor_types.h, class RuntimeProcess)\<close>







section \<open>Reference statistics: the two-pass mean and sample variance\<close>




section \<open>Feeding the window analyzer a sequence of samples\<close>

text \<open>
  \<open>AnalyzeSample\<close> called once per (timestamp, value) pair, in order; the result lists
  every window \<open>FinalizeWindow\<close> produced on the way, oldest first.
\<close>

fun AnalyzeSamples_finalized ::
  "(u64 \<times> real) list \<Rightarrow> WelfordAnalyzer
     \<Rightarrow> (WindowResult StepResult list \<times> WelfordAnalyzer) option"
where
  "AnalyzeSamples_finalized [] a = Some ([], a)"
| "AnalyzeSamples_finalized ((t, v) # rest) a =
     (case AnalyzeSample_finalized t v a of
        None \<Rightarrow> None
      | Some (out, finalized, a') \<Rightarrow>
          (case AnalyzeSamples_finalized rest a' of
             None \<Rightarrow> None
           | Some (later, a'') \<Rightarrow> Some (finalized @ later, a'')))"

text \<open>The start and end of a finalized window.\<close>

definition window_bounds :: "WindowResult StepResult \<Rightarrow> u64 \<times> u64" where
  "window_bounds w = (window_start_us (result w), window_end_us (result w))"

text \<open>A configuration with a window of one second, used in examples.\<close>

definition cfg_1s :: "nat \<Rightarrow> nat \<Rightarrow> Analyzer_Config" where
  "cfg_1s min_samples req =
     \<lparr>window_micro = 1000000, min_window_sample_size = min_samples,
      stddev_max = 2 / 1000, drift_per_sec_max = 1 / 1000,
      stable_consecutive_windows_req = req\<rparr>"

text \<open>The analyzer after one pass through the body of the loop of \<open>AnalyzeSample\<close>.\<close>

definition next_window :: "WelfordAnalyzer \<Rightarrow> WelfordAnalyzer" where
  "next_window a =
     (snd (FinalizeWindow a))
       \<lparr>window_start_micro_sec := window_start_micro_sec a + ucast (window_micro (cfg a)),
        WfS := WelfordStats_reset\<rparr>"

section \<open>Feeding the breath state machine a sequence of windows\<close>

text \<open>
  \<open>AnalyzeBreath\<close> called once per window, in order, with the analyzer and the result
  record carried from call to call as \<open>RuntimeProcess\<close> does; the list holds each
  call's return value and event.
\<close>

fun AnalyzeBreath_all ::
  "WindowResult list \<Rightarrow> BreathAnalyzer \<Rightarrow> BreathResult
     \<Rightarrow> (bool \<times> BreathEvent) list \<times> BreathAnalyzer \<times> BreathResult"
where
  "AnalyzeBreath_all [] s r = ([], s, r)"
| "AnalyzeBreath_all (w # ws) s r =
     (case AnalyzeBreath w s r of
        (b, s1, r1, ev) \<Rightarrow>
          (case AnalyzeBreath_all ws s1 r1 of
             (evs, s2, r2) \<Rightarrow> ((b, ev) # evs, s2, r2)))"

text \<open>
  A run of finalized windows (\<open>window_end_us\<close> not 0) each of which leaves the machine
  in \<open>Processing\<close>.
\<close>

fun processing_run :: "WindowResult list \<Rightarrow> BreathAnalyzer \<Rightarrow> BreathResult \<Rightarrow> bool" where
  "processing_run [] s r = True"
| "processing_run (w # ws) s r =
     (case AnalyzeBreath w s r of
        (b, s1, r1, ev) \<Rightarrow>
          window_end_us w \<noteq> 0 \<and> breath_state s1 = St_Processing \<and> processing_run ws s1 r1)"

text \<open>
  The default configuration of \<open>config_settings.h\<close>, with the warm-up count as a
  parameter, and a window with given stability, mean, start and end, for examples.
\<close>

definition bcfg_default :: "u16 \<Rightarrow> BreathAnalyzer_Config" where
  "bcfg_default warmup =
     \<lparr>warmup_stable_windows = warmup, cooldown_stable_windows = 25,
      min_blow_time_us = 400000, max_blow_time_us = 5000000,
      start_delta_v = 5 / 100, end_delta_v = 2 / 100, baseline_alpha = 5 / 100,
      start_k_sigma = 3, end_k_sigma = 3, ready_delta_v = 1 / 100, ready_k_sigma = 2\<rparr>"

definition window_of :: "bool \<Rightarrow> real \<Rightarrow> u64 \<Rightarrow> u64 \<Rightarrow> WindowResult" where
  "window_of st m t0 t1 =
     \<lparr>stable = st, mean = m, stddev = 1 / 1000, mean_prev = Some m, drift_per_sec = 0,
      window_start_us = t0, window_end_us = t1\<rparr>"

text \<open>
  The machine and its result record after the given windows, from the initial state with
  the default configuration and a warm-up count of 1; used in examples.
\<close>

definition example_machine :: "WindowResult list \<Rightarrow> BreathAnalyzer \<times> BreathResult" where
  "example_machine ws =
     snd (AnalyzeBreath_all ws (BreathAnalyzer_init (bcfg_default 1)) BreathResult_default)"

section \<open>Calibration processor (processor_types.h, class CalibrationProcess)\<close>

text \<open>The members \<open>analyzer_\<close> and \<open>last_\<close>.\<close>

record CalibrationProcess =
  cal_analyzer :: WelfordAnalyzer
  cal_last :: WindowResult

definition CalibrationProcess_init :: "Analyzer_Config \<Rightarrow> CalibrationProcess" where
  "CalibrationProcess_init c =
     \<lparr>cal_analyzer = WelfordAnalyzer_init c, cal_last = WindowResult_default\<rparr>"

definition CalibrationProcess_on_batch ::
  "Sample list \<Rightarrow> CalibrationProcess
     \<Rightarrow> (WindowResult StepResult \<times> CalibrationProcess) option" where
  "CalibrationProcess_on_batch samples p =
     (case AnalyzeBatch samples get_volts (cal_analyzer p) of
        None \<Rightarrow> None
      | Some (step, wa) \<Rightarrow>
          (let p1 = p\<lparr>cal_analyzer := wa\<rparr>;
               p2 = (if window_end_us (result step) \<noteq> 0
                     then p1\<lparr>cal_last := result step\<rparr> else p1)
           in if stable (result step) then Some (step\<lparr>action := Done\<rparr>, p2)
              else Some (step, p2)))"

section \<open>Batch runner (process_runner.h, class ProcessRunner)\<close>

text \<open>
  The runner is a template over the processor. A processor is given here by its
  \<open>on_batch\<close>, its \<open>result\<close> and the value of \<open>bEnableTimeout<Processor>()\<close>, which is
  the processor's static member of that name, or true when it has none.
\<close>

record ('p, 'r) Processor =
  on_batch_of :: "Sample list \<Rightarrow> 'p \<Rightarrow> ('r StepResult \<times> 'p) option"
  result_of :: "'p \<Rightarrow> 'r"
  bEnableTimeout :: bool

definition Calibration_Processor :: "(CalibrationProcess, WindowResult) Processor" where
  "Calibration_Processor =
     \<lparr>on_batch_of = CalibrationProcess_on_batch, result_of = cal_last, bEnableTimeout = True\<rparr>"


text \<open>
  The two sleeps of the loop only let time pass; time is what the clock reads. Times
  and durations are integers (ticks of the steady clock).
\<close>

record Consumer_Config =
  consumer_idle_sleep :: int
  consumer_tick_sleep :: int
  Timeout :: int
  max_batch :: nat

text \<open>
  What one pass through the loop observes of the world outside the consumer thread:
  the flag \<open>g_running\<close> at the loop test, the samples \<open>pop_batch\<close> takes out of the
  sampler's ring (none when it returns 0), and the reading of the steady clock at the
  time-out test after the idle sleep and at the one after the tick sleep. The sampler
  thread, the signal handler and the clock act through these observations only, so a
  run of the loop is determined by the sequence of observations, one per pass.
\<close>

record Observed =
  g_running :: bool
  popped :: "Sample list"
  now_idle :: int
  now_tick :: int

text \<open>
  The loop of \<open>run\<close> from pass \<open>i\<close> on. It returns the result, the processor, the
  number of calls of the event callback so far and the pass on which it returned. The
  callback may change the processor (the runtime callback pops its events).
\<close>

partial_function (option) run_loop ::
  "('p, 'r) Processor \<Rightarrow> ('p \<Rightarrow> 'p) \<Rightarrow> Consumer_Config \<Rightarrow> int \<Rightarrow> (nat \<Rightarrow> Observed)
     \<Rightarrow> nat \<Rightarrow> 'p \<Rightarrow> nat \<Rightarrow> ('r \<times> 'p \<times> nat \<times> nat) option"
where
  "run_loop proc on_process_event cc start env i p calls =
     (if \<not> g_running (env i) then Some (result_of proc p, p, calls, i)
      else if popped (env i) = []
      then (if bEnableTimeout proc \<and> Timeout cc \<le> now_idle (env i) - start
            then Some (result_of proc p, p, calls, i)
            else run_loop proc on_process_event cc start env (i + 1) p calls)
      else
        (case on_batch_of proc (popped (env i)) p of
           None \<Rightarrow> None
         | Some (cur_step, p1) \<Rightarrow>
             (let signalled = (event cur_step \<noteq> Ev_None);
                  p2 = (if signalled then on_process_event p1 else p1);
                  calls2 = (if signalled then calls + 1 else calls)
              in if action cur_step = Continue
                 then (if bEnableTimeout proc \<and> Timeout cc \<le> now_tick (env i) - start
                       then Some (result_of proc p2, p2, calls2, i)
                       else run_loop proc on_process_event cc start env (i + 1) p2 calls2)
                 else Some (result_of proc p2, p2, calls2, i))))"

declare run_loop.simps [code]

definition run ::
  "('p, 'r) Processor \<Rightarrow> ('p \<Rightarrow> 'p) \<Rightarrow> Consumer_Config \<Rightarrow> int \<Rightarrow> (nat \<Rightarrow> Observed)
     \<Rightarrow> 'p \<Rightarrow> ('r \<times> 'p \<times> nat \<times> nat) option" where
  "run proc on_process_event cc start env p = run_loop proc on_process_event cc start env 0 p 0"


definition empty_transport :: "nat \<Rightarrow> Observed" where
  "empty_transport i =
     \<lparr>g_running = True, popped = [], now_idle = 5 * int (i + 1), now_tick = 5 * int (i + 1)\<rparr>"

definition consumer_default :: Consumer_Config where
  "consumer_default =
     \<lparr>consumer_idle_sleep = 5, consumer_tick_sleep = 50, Timeout = 60000, max_batch = 256\<rparr>"


section \<open>Ring transport: the queue behind the cursors\<close>

lemma mask_pow2: "(x::nat) AND (2 ^ k - 1) = x mod 2 ^ k"
  by (metis mask_eq_exp_minus_1 take_bit_eq_mask take_bit_eq_mod)

lemma ring_len_lt: "ring_ok N r \<Longrightarrow> ring_len N r < N"
  by (auto simp: ring_ok_def ring_len_def)

lemma idx_head: "ring_ok N r \<Longrightarrow> (tail r + ring_len N r) mod N = head r"
  by (auto simp: ring_ok_def ring_len_def)

lemma idx_ne_head_aux:
  fixes t h i N :: nat
  assumes "h < N" "t < N" "i < (if t \<le> h then h - t else h + N - t)"
  shows "(t + i) mod N \<noteq> h"
proof (cases "t + i < N")
  case True
  then show ?thesis using assms by (auto split: if_splits)
next
  case False
  then have "(t + i) mod N = (t + i - N) mod N" by (simp add: le_mod_geq)
  also have "\<dots> = t + i - N" using assms False by (auto split: if_splits)
  finally show ?thesis using assms False by (auto split: if_splits)
qed

lemma idx_ne_head:
  "ring_ok N r \<Longrightarrow> i < ring_len N r \<Longrightarrow> (tail r + i) mod N \<noteq> head r"
  using idx_ne_head_aux [of "head r" N "tail r" i] by (simp add: ring_ok_def ring_len_def)

lemma mask_succ: "N = 2 ^ k \<Longrightarrow> h < N \<Longrightarrow> (h + 1) AND (N - 1) = wrap_succ N h"
  using mask_pow2 [of "h + 1" k] by (auto simp: mod_if wrap_succ_def)

lemma push_overwrite_alt:
  assumes "N = 2 ^ k" "ring_ok N r"
  shows "push_overwrite N v r =
    (if wrap_succ N (head r) = tail r
     then (False, r\<lparr>tail := wrap_succ N (tail r), ring_buffer := (ring_buffer r)[head r := v],
                     head := wrap_succ N (head r)\<rparr>)
     else (True, r\<lparr>ring_buffer := (ring_buffer r)[head r := v], head := wrap_succ N (head r)\<rparr>))"
proof -
  have a: "(head r + 1) AND (N - 1) = wrap_succ N (head r)"
    using assms by (intro mask_succ) (auto simp: ring_ok_def)
  have b: "(tail r + 1) AND (N - 1) = wrap_succ N (tail r)"
    using assms by (intro mask_succ) (auto simp: ring_ok_def)
  show ?thesis unfolding push_overwrite_def Let_def a b by simp
qed

lemma pop_alt:
  assumes "N = 2 ^ k" "ring_ok N r"
  shows "pop N r = (if tail r = head r then (None, r)
     else (Some (ring_buffer r ! tail r), r\<lparr>tail := wrap_succ N (tail r)\<rparr>))"
proof -
  have b: "(tail r + 1) AND (N - 1) = wrap_succ N (tail r)"
    using assms by (intro mask_succ) (auto simp: ring_ok_def)
  show ?thesis unfolding pop_def Let_def b by simp
qed

lemma push_overwrite_ok:
  assumes "N = 2 ^ k" "ring_ok N r"
  shows "ring_ok N (snd (push_overwrite N v r))"
  using assms(2) unfolding push_overwrite_alt [OF assms] by (auto simp: ring_ok_def wrap_succ_def)

lemma push_overwrite_fst:
  assumes "N = 2 ^ k" "ring_ok N r"
  shows "fst (push_overwrite N v r) = (ring_len N r \<noteq> N - 1)"
  using assms(2) unfolding push_overwrite_alt [OF assms]
  by (auto simp: ring_ok_def ring_len_def wrap_succ_def split: if_splits)

lemma push_overwrite_len:
  assumes "N = 2 ^ k" "ring_ok N r"
  shows "ring_len N (snd (push_overwrite N v r)) = (if ring_len N r = N - 1 then N - 1 else ring_len N r + 1)"
  using assms(2) unfolding push_overwrite_alt [OF assms]
  by (auto simp: ring_ok_def ring_len_def wrap_succ_def split: if_splits)


lemma length_contents [simp]: "length (contents N r) = ring_len N r"
  by (simp add: contents_def)

lemma nth_contents:
  "i < ring_len N r \<Longrightarrow> contents N r ! i = ring_buffer r ! ((tail r + i) mod N)"
  by (simp add: contents_def)

lemma keep_last_keep_last:
  "keep_last n (keep_last n xs @ ys) = keep_last n (xs @ ys)"
  by (cases "length xs \<le> n") (auto simp: keep_last_def add.commute)

lemma wrap_succ_mod: "t < N \<Longrightarrow> (wrap_succ N t + i) mod N = (t + (i + 1)) mod N"
  by (auto simp: wrap_succ_def) (metis add_Suc mod_add_self1)

lemma push_overwrite_contents:
  assumes "N = 2 ^ k" "ring_ok N r"
  shows "contents N (snd (push_overwrite N v r)) = keep_last (N - 1) (contents N r @ [v])"
proof (cases "ring_len N r = N - 1")
  case False
  then have lt: "ring_len N r < N - 1"
    using ring_len_lt [OF assms(2)] by simp
  have ne: "wrap_succ N (head r) \<noteq> tail r"
    using push_overwrite_fst [OF assms, of v] False
    unfolding push_overwrite_alt [OF assms] by (auto split: if_splits)
  have len: "ring_len N (snd (push_overwrite N v r)) = ring_len N r + 1"
    using push_overwrite_len [OF assms, of v] False by simp
  have tN0: "tail r < N" "head r < N" "length (ring_buffer r) = N"
    using assms(2) by (auto simp: ring_ok_def)
  have "contents N (snd (push_overwrite N v r)) = contents N r @ [v]"
  proof (rule nth_equalityI)
    show "length (contents N (snd (push_overwrite N v r))) = length (contents N r @ [v])"
      using len by simp
  next
    fix i assume "i < length (contents N (snd (push_overwrite N v r)))"
    then have i: "i < ring_len N r + 1" using len by simp
    have "contents N (snd (push_overwrite N v r)) ! i
       = ring_buffer (snd (push_overwrite N v r)) ! ((tail (snd (push_overwrite N v r)) + i) mod N)"
      using i len by (intro nth_contents) simp
    then have l: "contents N (snd (push_overwrite N v r)) ! i
       = (ring_buffer r)[head r := v] ! ((tail r + i) mod N)"
      using ne unfolding push_overwrite_alt [OF assms] by simp
    show "contents N (snd (push_overwrite N v r)) ! i = (contents N r @ [v]) ! i"
    proof (cases "i < ring_len N r")
      case True
      then show ?thesis unfolding l using idx_ne_head [OF assms(2) True]
        by (simp add: nth_append contents_def)
    next
      case False
      then have "i = ring_len N r" using i by simp
      then show ?thesis unfolding l using idx_head [OF assms(2)] tN0
        by (simp add: nth_append)
    qed
  qed
  then show ?thesis using lt by (simp add: keep_last_def contents_def)
next
  case True
  have eq: "wrap_succ N (head r) = tail r"
    using push_overwrite_fst [OF assms, of v] True
    unfolding push_overwrite_alt [OF assms] by (auto split: if_splits)
  have len: "ring_len N (snd (push_overwrite N v r)) = N - 1"
    using push_overwrite_len [OF assms, of v] True by simp
  have tN: "tail r < N" "head r < N" "length (ring_buffer r) = N"
    using assms(2) by (auto simp: ring_ok_def)
  show ?thesis
  proof (rule nth_equalityI)
    show "length (contents N (snd (push_overwrite N v r))) =
          length (keep_last (N - 1) (contents N r @ [v]))"
      using len True by (auto simp: contents_def keep_last_def)
  next
    fix i assume "i < length (contents N (snd (push_overwrite N v r)))"
    then have i: "i < N - 1" using len by (simp add: contents_def)
    have "contents N (snd (push_overwrite N v r)) ! i
       = ring_buffer (snd (push_overwrite N v r)) ! ((tail (snd (push_overwrite N v r)) + i) mod N)"
      using i len by (intro nth_contents) simp
    then have l: "contents N (snd (push_overwrite N v r)) ! i
       = (ring_buffer r)[head r := v] ! ((tail r + (i + 1)) mod N)"
      using tN unfolding push_overwrite_alt [OF assms]
      by (simp add: eq wrap_succ_mod)
    have "length (contents N r @ [v]) - (N - 1) = 1"
      using i True by simp
    then have "keep_last (N - 1) (contents N r @ [v]) = drop 1 (contents N r @ [v])"
      unfolding keep_last_def by simp
    then have r: "keep_last (N - 1) (contents N r @ [v]) ! i = (contents N r @ [v]) ! (i + 1)"
      using i True by (simp del: drop_append)
    show "contents N (snd (push_overwrite N v r)) ! i =
          keep_last (N - 1) (contents N r @ [v]) ! i"
    proof (cases "i + 1 < N - 1")
      case True
      then have "(tail r + (i + 1)) mod N \<noteq> head r"
        using idx_ne_head [OF assms(2), of "i + 1"] \<open>ring_len N r = N - 1\<close> by simp
      then show ?thesis unfolding l r using True \<open>ring_len N r = N - 1\<close>
        by (simp add: nth_append contents_def)
    next
      case False
      then have i1: "i + 1 = N - 1" using i by simp
      then have hd: "(tail r + (i + 1)) mod N = head r"
        using idx_head [OF assms(2)] \<open>ring_len N r = N - 1\<close> by simp
      have a: "contents N (snd (push_overwrite N v r)) ! i = v"
        unfolding l hd using tN by simp
      have "(contents N r @ [v]) ! (i + 1) = v"
        using i1 \<open>ring_len N r = N - 1\<close> by (simp add: nth_append)
      then show ?thesis using a r by simp
    qed
  qed
qed


lemma pop_None:
  assumes "N = 2 ^ k" "ring_ok N r" "contents N r = []"
  shows "pop N r = (None, r)"
  using assms(2,3) unfolding pop_alt [OF assms(1,2)]
  by (auto simp: contents_def ring_len_def ring_ok_def split: if_splits)

lemma pop_Some:
  assumes "N = 2 ^ k" "ring_ok N r" "contents N r = x # xs"
  shows "fst (pop N r) = Some x" and "ring_ok N (snd (pop N r))"
    and "contents N (snd (pop N r)) = xs"
proof -
  have ne: "tail r \<noteq> head r"
    using assms(3) by (auto simp: contents_def ring_len_def)
  have tN: "tail r < N" "head r < N" "length (ring_buffer r) = N"
    using assms(2) by (auto simp: ring_ok_def)
  have pos: "0 < ring_len N r" using length_contents [of N r] assms(3) by simp
  have "contents N r ! 0 = ring_buffer r ! tail r"
    using pos tN by (simp add: contents_def)
  then show "fst (pop N r) = Some x"
    using ne assms(3) unfolding pop_alt [OF assms(1,2)] by simp
  show "ring_ok N (snd (pop N r))"
    using tN unfolding pop_alt [OF assms(1,2)] by (auto simp: ring_ok_def wrap_succ_def)
  have len: "ring_len N (snd (pop N r)) = ring_len N r - 1"
    using tN ne unfolding pop_alt [OF assms(1,2)]
    by (auto simp: ring_len_def wrap_succ_def)
  have "contents N (snd (pop N r)) = tl (contents N r)"
  proof (rule nth_equalityI)
    show "length (contents N (snd (pop N r))) = length (tl (contents N r))"
      using len by (simp add: contents_def)
  next
    fix i assume "i < length (contents N (snd (pop N r)))"
    then have i: "i < ring_len N r - 1" using len by (simp add: contents_def)
    have "contents N (snd (pop N r)) ! i
       = ring_buffer (snd (pop N r)) ! ((tail (snd (pop N r)) + i) mod N)"
      using i len by (intro nth_contents) simp
    then have l: "contents N (snd (pop N r)) ! i = ring_buffer r ! ((tail r + (i + 1)) mod N)"
      using ne tN unfolding pop_alt [OF assms(1,2)] by (simp add: wrap_succ_mod)
    have "tl (contents N r) ! i = contents N r ! (i + 1)"
      using i by (simp add: nth_tl)
    also have "\<dots> = ring_buffer r ! ((tail r + (i + 1)) mod N)"
      using i by (intro nth_contents) simp
    finally show "contents N (snd (pop N r)) ! i = tl (contents N r) ! i"
      using l by simp
  qed
  then show "contents N (snd (pop N r)) = xs" using assms(3) by simp
qed

lemma pop_batch_contents:
  assumes "N = 2 ^ k" "ring_ok N r"
  shows "fst (pop_batch N m r) = take m (contents N r)
       \<and> ring_ok N (snd (pop_batch N m r))
       \<and> contents N (snd (pop_batch N m r)) = drop m (contents N r)"
  using assms(2)
proof (induction m arbitrary: r)
  case 0
  then show ?case by simp
next
  case (Suc m)
  show ?case
  proof (cases "contents N r")
    case Nil
    then show ?thesis using pop_None [OF assms(1) Suc.prems Nil] Suc.prems by simp
  next
    case (Cons x xs)
    obtain r' where p: "pop N r = (Some x, r')"
      using pop_Some(1) [OF assms(1) Suc.prems Cons] by (cases "pop N r") auto
    have r': "ring_ok N r'" "contents N r' = xs"
      using pop_Some(2,3) [OF assms(1) Suc.prems Cons] p by auto
    show ?thesis using Suc.IH [OF r'(1)] r' p Cons
      by (auto split: prod.splits)
  qed
qed

lemma push_all_contents:
  assumes "N = 2 ^ k" "ring_ok N r"
  shows "ring_ok N (snd (push_all N vs r))
       \<and> contents N (snd (push_all N vs r)) = keep_last (N - 1) (contents N r @ vs)"
  using assms(2)
proof (induction vs arbitrary: r)
  case Nil
  then show ?case using ring_len_lt [OF Nil] by (simp add: keep_last_def contents_def)
next
  case (Cons v vs)
  obtain ok r' where p: "push_overwrite N v r = (ok, r')" by (cases "push_overwrite N v r")
  have r': "ring_ok N r'" "contents N r' = keep_last (N - 1) (contents N r @ [v])"
    using push_overwrite_ok [OF assms(1) Cons.prems, of v]
      push_overwrite_contents [OF assms(1) Cons.prems, of v] p by auto
  have "keep_last (N - 1) (keep_last (N - 1) (contents N r @ [v]) @ vs)
      = keep_last (N - 1) (contents N r @ v # vs)"
    using keep_last_keep_last [of "N - 1" "contents N r @ [v]" vs] by simp
  then show ?case using Cons.IH [OF r'(1)] r' p by (auto split: prod.splits)
qed

lemma push_all_oks:
  assumes "N = 2 ^ k" "ring_ok N r" "length (contents N r) + length vs \<le> N - 1"
  shows "fst (push_all N vs r) = replicate (length vs) True"
  using assms(2,3)
proof (induction vs arbitrary: r)
  case Nil
  then show ?case by simp
next
  case (Cons v vs)
  obtain ok r' where p: "push_overwrite N v r = (ok, r')" by (cases "push_overwrite N v r")
  have lt: "ring_len N r < N - 1" using Cons.prems(2) by (simp add: contents_def)
  have r': "ring_ok N r'" "contents N r' = keep_last (N - 1) (contents N r @ [v])" "ok"
    using push_overwrite_ok [OF assms(1) Cons.prems(1), of v]
      push_overwrite_contents [OF assms(1) Cons.prems(1), of v]
      push_overwrite_fst [OF assms(1) Cons.prems(1), of v] p lt by auto
  have "length (contents N r') + length vs \<le> N - 1"
    using r'(2) Cons.prems(2) by (simp add: keep_last_def)
  then show ?case using Cons.IH [OF r'(1)] r' p by (auto split: prod.splits)
qed


lemma SpscRing_init_ok: "N = 2 ^ k \<Longrightarrow> ring_ok N (SpscRing_init N d)"
  by (simp add: ring_ok_def SpscRing_init_def)

lemma SpscRing_init_contents: "contents N (SpscRing_init N d) = []"
  by (simp add: contents_def ring_len_def SpscRing_init_def)

lemma pop_after_drain:
  assumes "N = 2 ^ k" "ring_ok N r" "ring_len N r \<le> m"
  shows "fst (pop N (snd (pop_batch N m r))) = None"
proof -
  have "ring_ok N (snd (pop_batch N m r))" "contents N (snd (pop_batch N m r)) = []"
    using pop_batch_contents [OF assms(1,2), of m] assms(3) by auto
  then show ?thesis by (simp add: pop_None [OF assms(1)])
qed

section \<open>Ring transport: overwrite keeps the newest elements\<close>

text \<open>
  C1, as stated, at a ring of two slots: three pushes, then a drain. The claim
  expects the last two values; the ring returns the last one only, because a ring of
  \<open>N\<close> slots is full at \<open>N - 1\<close> elements.
\<close>

theorem C1_counterexample:
  "fst (pop_batch 2 3 (snd (push_all 2 [1, 2, 3 :: nat] (SpscRing_init 2 0)))) = [3]
   \<and> drop (length [1, 2, 3 :: nat] - 2) [1, 2, 3 :: nat] = [2, 3]"
  by code_simp

text \<open>
  C1 (amended): for a ring of \<open>N = 2 ^ k\<close> slots, after more than \<open>N\<close> calls of
  \<open>push_overwrite\<close> on the fresh ring, \<open>pop_batch\<close> with room for \<open>N - 1\<close> elements
  returns exactly the last \<open>N - 1\<close> pushed values in their order, and the next \<open>pop\<close>
  finds the ring empty.
\<close>

theorem C1_overwrite_keeps_last:
  assumes "N = 2 ^ k" and "N < length vs" and "N - 1 \<le> m"
  shows "fst (pop_batch N m (snd (push_all N vs (SpscRing_init N d))))
           = drop (length vs - (N - 1)) vs
       \<and> fst (pop N (snd (pop_batch N m (snd (push_all N vs (SpscRing_init N d)))))) = None"
proof -
  let ?r = "snd (push_all N vs (SpscRing_init N d))"
  have r: "ring_ok N ?r" "contents N ?r = keep_last (N - 1) vs"
    using push_all_contents [OF assms(1) SpscRing_init_ok [OF assms(1)], of vs d]
    by (simp_all add: SpscRing_init_contents)
  have len: "ring_len N ?r = N - 1"
    using r(2) assms(2) length_contents [of N ?r] by (simp add: keep_last_def)
  have "fst (pop_batch N m ?r) = take m (contents N ?r)"
    using pop_batch_contents [OF assms(1) r(1), of m] by simp
  then have a: "fst (pop_batch N m ?r) = drop (length vs - (N - 1)) vs"
    using r(2) len assms(3) length_contents [of N ?r] by (simp add: keep_last_def)
  have b: "fst (pop N (snd (pop_batch N m ?r))) = None"
    using pop_after_drain [OF assms(1) r(1)] len assms(3) by simp
  show ?thesis using a b by simp
qed

theorem C1_overwrite_keeps_last_witness:
  "fst (pop_batch 4 5 (snd (push_all 4 [1, 2, 3, 4, 5, 6 :: nat] (SpscRing_init 4 0))))
     = [4, 5, 6]"
  using C1_overwrite_keeps_last [of 4 2 "[1, 2, 3, 4, 5, 6 :: nat]" 5 0] by simp

section \<open>Ring transport: no loss below the usable capacity\<close>

text \<open>
  C5, as stated, at a ring of two slots and two pushes: the second push reports an
  eviction and the drain returns one element.
\<close>

theorem C5_counterexample:
  "fst (push_all 2 [1, 2 :: nat] (SpscRing_init 2 0)) = [True, False]
   \<and> fst (pop_batch 2 2 (snd (push_all 2 [1, 2 :: nat] (SpscRing_init 2 0)))) = [2]"
  by code_simp

text \<open>
  C5 (amended): for a ring of \<open>N = 2 ^ k\<close> slots and at most \<open>N - 1\<close> values, every
  \<open>push_overwrite\<close> on the fresh ring returns true, \<open>pop_batch\<close> with room for them
  returns exactly those values in order, and the next \<open>pop\<close> finds the ring empty.
\<close>

theorem C5_no_loss_under_capacity:
  assumes "N = 2 ^ k" and "length vs \<le> N - 1" and "length vs \<le> m"
  shows "fst (push_all N vs (SpscRing_init N d)) = replicate (length vs) True
       \<and> fst (pop_batch N m (snd (push_all N vs (SpscRing_init N d)))) = vs
       \<and> fst (pop N (snd (pop_batch N m (snd (push_all N vs (SpscRing_init N d)))))) = None"
proof -
  let ?r = "snd (push_all N vs (SpscRing_init N d))"
  have ok: "ring_ok N (SpscRing_init N d :: 'a SpscRing)"
    by (rule SpscRing_init_ok [OF assms(1)])
  have r: "ring_ok N ?r" "contents N ?r = keep_last (N - 1) vs"
    using push_all_contents [OF assms(1) ok, of vs] by (simp_all add: SpscRing_init_contents)
  have c: "contents N ?r = vs" using r(2) assms(2) by (simp add: keep_last_def)
  have a: "fst (push_all N vs (SpscRing_init N d)) = replicate (length vs) True"
    using push_all_oks [OF assms(1) ok, of vs] assms(2) by (simp add: SpscRing_init_contents)
  have "fst (pop_batch N m ?r) = take m (contents N ?r)"
    using pop_batch_contents [OF assms(1) r(1), of m] by simp
  then have b: "fst (pop_batch N m ?r) = vs" using c assms(3) by simp
  have "ring_len N ?r \<le> m" using c assms(3) length_contents [of N ?r] by simp
  then have d: "fst (pop N (snd (pop_batch N m ?r))) = None"
    using pop_after_drain [OF assms(1) r(1)] by simp
  show ?thesis using a b d by simp
qed

theorem C5_no_loss_under_capacity_witness:
  "fst (push_all 4 [7, 8, 9 :: nat] (SpscRing_init 4 0)) = [True, True, True]
   \<and> fst (pop_batch 4 3 (snd (push_all 4 [7, 8, 9 :: nat] (SpscRing_init 4 0)))) = [7, 8, 9]"
  using C5_no_loss_under_capacity [of 4 2 "[7, 8, 9 :: nat]" 3 0]
  by (simp add: numeral_3_eq_3)

section \<open>Welford statistics against the two-pass computation\<close>







section \<open>Window analyzer: evaluation rules\<close>

lemmas analyzer_eval =
  AnalyzeSample_finalized_def WelfordAnalyzer_init_def cfg_1s_def AnalyzeSample_loop.simps
  FinalizeWindow_def StepResult_default_def WindowResult_default_def WelfordStats_reset_def
  WelfordStats_push_def stddev_sample_def variance_sample_def window_bounds_def Let_def
  us_to_sec_def

lemma FinalizeWindow_keeps:
  "cfg (snd (FinalizeWindow a)) = cfg a"
  "window_start_micro_sec (snd (FinalizeWindow a)) = window_start_micro_sec a"
  by (simp_all add: FinalizeWindow_def Let_def)

lemma FinalizeWindow_bounds:
  "window_bounds (fst (FinalizeWindow a))
     = (window_start_micro_sec a, window_start_micro_sec a + ucast (window_micro (cfg a)))"
  by (simp add: FinalizeWindow_def Let_def window_bounds_def StepResult_default_def
      WindowResult_default_def)

lemma next_window_fields:
  "cfg (next_window a) = cfg a"
  "window_start_micro_sec (next_window a)
     = window_start_micro_sec a + ucast (window_micro (cfg a))"
  "WfS (next_window a) = WelfordStats_reset"
  by (simp_all add: next_window_def FinalizeWindow_keeps)

lemma loop_exit:
  "\<not> ucast (window_micro (cfg a)) \<le> t - window_start_micro_sec a
   \<Longrightarrow> AnalyzeSample_loop t a out fin = Some (a, out, fin)"
  by (subst AnalyzeSample_loop.simps) simp

lemma loop_step:
  "ucast (window_micro (cfg a)) \<le> t - window_start_micro_sec a
   \<Longrightarrow> AnalyzeSample_loop t a out fin
       = AnalyzeSample_loop t (next_window a) (fst (FinalizeWindow a))
           (fin @ [fst (FinalizeWindow a)])"
proof -
  assume c: "ucast (window_micro (cfg a)) \<le> t - window_start_micro_sec a"
  obtain w a1 where f: "FinalizeWindow a = (w, a1)" by (cases "FinalizeWindow a")
  have k: "cfg a1 = cfg a" "window_start_micro_sec a1 = window_start_micro_sec a"
    using FinalizeWindow_keeps [of a] f by simp_all
  show ?thesis
    by (subst AnalyzeSample_loop.simps) (simp add: c f k next_window_def)
qed

lemma ucast_second: "(ucast (1000000 :: u32) :: u64) = 1000000"
  by simp

lemma sample_inside_window:
  assumes "window_micro (cfg a) = 1000000" "window_start_micro_sec a = T" "T \<noteq> 0"
    and "d < 1000000"
  shows "AnalyzeSample_finalized (T + d) v a
     = Some (StepResult_default WindowResult_default, [],
             a\<lparr>WfS := WelfordStats_push v (WfS a), window_end_micro_sec := T + d\<rparr>)"
proof -
  have "\<not> ucast (window_micro (cfg a)) \<le> (T + d) - window_start_micro_sec a"
    using assms by (simp add: not_le)
  then show ?thesis using assms(2,3)
    by (simp add: AnalyzeSample_finalized_def loop_exit)
qed

lemma samples_inside_window:
  assumes "window_micro (cfg a) = 1000000" "window_start_micro_sec a = T" "T \<noteq> 0"
    and "\<forall>p \<in> set ds. fst p < 1000000"
  shows "\<exists>a'. AnalyzeSamples_finalized (map (\<lambda>(d, v). (T + d, v)) ds) a = Some ([], a')
           \<and> cfg a' = cfg a \<and> window_start_micro_sec a' = T"
  using assms
proof (induction ds arbitrary: a)
  case Nil
  then show ?case by simp
next
  case (Cons p ds)
  obtain d v where p: "p = (d, v)" by (cases p)
  let ?a1 = "a\<lparr>WfS := WelfordStats_push v (WfS a), window_end_micro_sec := T + d\<rparr>"
  have d: "d < 1000000" using Cons.prems(4) p by simp
  have s: "AnalyzeSample_finalized (T + d) v a
      = Some (StepResult_default WindowResult_default, [], ?a1)"
    by (rule sample_inside_window [OF Cons.prems(1,2,3) d])
  have "\<exists>a'. AnalyzeSamples_finalized (map (\<lambda>(d, v). (T + d, v)) ds) ?a1 = Some ([], a')
           \<and> cfg a' = cfg ?a1 \<and> window_start_micro_sec a' = T"
    using Cons.prems by (intro Cons.IH) simp_all
  then show ?case using s p by auto
qed

lemma first_sample:
  assumes "window_micro c = 1000000" "T \<noteq> 0"
  shows "AnalyzeSample_finalized T v (WelfordAnalyzer_init c)
     = Some (StepResult_default WindowResult_default, [],
             (WelfordAnalyzer_init c)
               \<lparr>window_start_micro_sec := T,
                WfS := WelfordStats_push v WelfordStats_reset, window_end_micro_sec := T\<rparr>)"
proof -
  let ?a0 = "(WelfordAnalyzer_init c)\<lparr>window_start_micro_sec := T\<rparr>"
  have "\<not> ucast (window_micro (cfg ?a0)) \<le> T - window_start_micro_sec ?a0"
    using assms by (simp add: WelfordAnalyzer_init_def)
  then have "AnalyzeSample_loop T ?a0 (StepResult_default WindowResult_default) []
      = Some (?a0, StepResult_default WindowResult_default, [])"
    by (rule loop_exit)
  then show ?thesis
    by (simp add: AnalyzeSample_finalized_def) (simp add: WelfordAnalyzer_init_def)
qed

lemma one_window_later:
  assumes "window_micro (cfg a) = 1000000" "window_start_micro_sec a = T" "T \<noteq> 0"
  shows "map_option (\<lambda>(out, fin, a'). (window_bounds out, map window_bounds fin))
           (AnalyzeSample_finalized (T + 1000000) v a)
         = Some ((T, T + 1000000), [(T, T + 1000000)])"
proof -
  have 1: "AnalyzeSample_loop (T + 1000000) a out []
      = AnalyzeSample_loop (T + 1000000) (next_window a) (fst (FinalizeWindow a))
          [fst (FinalizeWindow a)]" for out
    using assms by (subst loop_step) simp_all
  have 2: "AnalyzeSample_loop (T + 1000000) (next_window a) out fin
      = Some (next_window a, out, fin)" for out fin
    using assms by (intro loop_exit) (simp add: next_window_fields)
  show ?thesis using assms(1,2,3)
    by (simp add: AnalyzeSample_finalized_def 1 2 FinalizeWindow_bounds)
qed

lemma gap_three_windows:
  assumes "window_micro (cfg a) = 1000000" "window_start_micro_sec a = T" "T \<noteq> 0"
  shows "map_option (\<lambda>(out, fin, a').
            (map window_bounds fin, window_start_micro_sec a', num_samples (WfS a')))
           (AnalyzeSample_finalized (T + 3500000) v a)
         = Some ([(T, T + 1000000), (T + 1000000, T + 2000000), (T + 2000000, T + 3000000)],
                 T + 3000000, 1)"
proof -
  let ?a1 = "next_window a"
  let ?a2 = "next_window ?a1"
  let ?a3 = "next_window ?a2"
  have f: "window_start_micro_sec ?a1 = T + 1000000" "window_start_micro_sec ?a2 = T + 2000000"
    "window_start_micro_sec ?a3 = T + 3000000"
    "window_micro (cfg ?a1) = 1000000" "window_micro (cfg ?a2) = 1000000"
    "window_micro (cfg ?a3) = 1000000"
    using assms by (simp_all add: next_window_fields)
  have 1: "AnalyzeSample_loop (T + 3500000) a out fin
      = AnalyzeSample_loop (T + 3500000) ?a1 (fst (FinalizeWindow a))
          (fin @ [fst (FinalizeWindow a)])" for out fin
    using assms by (subst loop_step) simp_all
  have 2: "AnalyzeSample_loop (T + 3500000) ?a1 out fin
      = AnalyzeSample_loop (T + 3500000) ?a2 (fst (FinalizeWindow ?a1))
          (fin @ [fst (FinalizeWindow ?a1)])" for out fin
    using f by (subst loop_step) simp_all
  have 3: "AnalyzeSample_loop (T + 3500000) ?a2 out fin
      = AnalyzeSample_loop (T + 3500000) ?a3 (fst (FinalizeWindow ?a2))
          (fin @ [fst (FinalizeWindow ?a2)])" for out fin
    using f by (subst loop_step) simp_all
  have 4: "AnalyzeSample_loop (T + 3500000) ?a3 out fin = Some (?a3, out, fin)" for out fin
    using f by (intro loop_exit) simp
  show ?thesis using assms(2,3) f
    by (simp add: AnalyzeSample_finalized_def 1 2 3 4 FinalizeWindow_bounds next_window_fields
        WelfordStats_push_def WelfordStats_reset_def)
qed


section \<open>Window analyzer: the window grid\<close>

text \<open>
  C2, as stated, with a window of one second and the first sample at timestamp 0: the
  sample at 1000000 finalizes no window, and neither does a sample at 3500000 after a
  sample at 0. A window start of 0 means that the window has not started, so the second
  sample starts the window anew.
\<close>

theorem C2_counterexample:
  "map_option (map window_bounds \<circ> fst)
     (AnalyzeSamples_finalized [(0, 1), (1000000, 2)] (WelfordAnalyzer_init (cfg_1s 1 3)))
     = Some []
   \<and> map_option (map window_bounds \<circ> fst)
       (AnalyzeSamples_finalized [(0, 1), (3500000, 2)] (WelfordAnalyzer_init (cfg_1s 1 3)))
     = Some []"
  by (simp add: analyzer_eval)

text \<open>
  C2 (amended): with a window of one second and a first sample at a timestamp \<open>T\<close>
  other than 0, samples with timestamps in \<open>[T, T + 999999]\<close> finalize no window; then
  a sample at \<open>T + 1000000\<close> finalizes exactly one window, from \<open>T\<close> to
  \<open>T + 1000000\<close>, which is the one returned; and a sample at \<open>T + 3500000\<close> instead
  finalizes exactly three windows, starting at \<open>T\<close>, \<open>T + 1000000\<close> and
  \<open>T + 2000000\<close>, and is then the one sample of the fourth window, which starts at
  \<open>T + 3000000\<close>.
\<close>

theorem C2_window_grid:
  assumes "window_micro c = 1000000" and "T \<noteq> 0" and "\<forall>p \<in> set ds. fst p < 1000000"
  shows "\<exists>a. AnalyzeSamples_finalized ((T, v0) # map (\<lambda>(d, v). (T + d, v)) ds)
                (WelfordAnalyzer_init c) = Some ([], a)
       \<and> map_option (\<lambda>(out, fin, a'). (window_bounds out, map window_bounds fin))
           (AnalyzeSample_finalized (T + 1000000) v1 a)
         = Some ((T, T + 1000000), [(T, T + 1000000)])
       \<and> map_option (\<lambda>(out, fin, a').
              (map window_bounds fin, window_start_micro_sec a', num_samples (WfS a')))
           (AnalyzeSample_finalized (T + 3500000) v2 a)
         = Some ([(T, T + 1000000), (T + 1000000, T + 2000000), (T + 2000000, T + 3000000)],
                 T + 3000000, 1)"
proof -
  let ?a1 = "(WelfordAnalyzer_init c)
               \<lparr>window_start_micro_sec := T,
                WfS := WelfordStats_push v0 WelfordStats_reset, window_end_micro_sec := T\<rparr>"
  have a1: "window_micro (cfg ?a1) = 1000000" "window_start_micro_sec ?a1 = T"
    using assms(1) by (simp_all add: WelfordAnalyzer_init_def)
  obtain a where a: "AnalyzeSamples_finalized (map (\<lambda>(d, v). (T + d, v)) ds) ?a1 = Some ([], a)"
    "cfg a = cfg ?a1" "window_start_micro_sec a = T"
    using samples_inside_window [OF a1 assms(2,3)] by blast
  have w: "window_micro (cfg a) = 1000000" using a(2) a1(1) by simp
  have "AnalyzeSamples_finalized ((T, v0) # map (\<lambda>(d, v). (T + d, v)) ds)
          (WelfordAnalyzer_init c) = Some ([], a)"
    using first_sample [OF assms(1,2), of v0] a(1) by simp
  then show ?thesis
    using one_window_later [OF w a(3) assms(2), of v1]
      gap_three_windows [OF w a(3) assms(2), of v2]
    by blast
qed

theorem C2_window_grid_witness:
  "\<exists>a. AnalyzeSamples_finalized [(7, 1), (12, 1), (1000006, 2)]
          (WelfordAnalyzer_init (cfg_1s 1 3)) = Some ([], a)
     \<and> map_option (\<lambda>(out, fin, a'). (window_bounds out, map window_bounds fin))
         (AnalyzeSample_finalized 1000007 3 a)
       = Some ((7, 1000007), [(7, 1000007)])
     \<and> map_option (\<lambda>(out, fin, a').
            (map window_bounds fin, window_start_micro_sec a', num_samples (WfS a')))
         (AnalyzeSample_finalized 3500007 4 a)
       = Some ([(7, 1000007), (1000007, 2000007), (2000007, 3000007)], 3000007, 1)"
  using C2_window_grid [of "cfg_1s 1 3" 7 "[(5, 1), (999999, 2)]" 1 3 4]
  by (simp add: cfg_1s_def)

section \<open>Window analyzer: the prior mean\<close>




section \<open>Breath state machine: evaluation rules and invariants\<close>

lemmas breath_eval =
  AnalyzeBreath_def UpdateBaseline_def Warmup_def Ready_def Processing_def Cooldown_def
  BreathAnalyzer_init_def BreathResult_default_def BreathEvent_default_def
  WindowResult_default_def bcfg_default_def window_of_def Let_def

lemma UpdateBaseline_keeps:
  "breath_state (fst (UpdateBaseline w s r)) = breath_state s"
  "bWarmedup (fst (UpdateBaseline w s r)) = bWarmedup s"
  "bcfg (fst (UpdateBaseline w s r)) = bcfg s"
  "cur_peak_voltage (fst (UpdateBaseline w s r)) = cur_peak_voltage s"
  "breath_start_us (fst (UpdateBaseline w s r)) = breath_start_us s"
  by (simp_all add: UpdateBaseline_def Let_def)

lemma Warmup_keeps:
  "bcfg (snd (Warmup s)) = bcfg s"
  "bWarmedup (snd (Warmup s)) \<or> breath_state (snd (Warmup s)) = St_Warmup"
  by (simp_all add: Warmup_def)

lemma Ready_keeps:
  "bcfg (fst (snd (Ready w s r thr))) = bcfg s"
  "bWarmedup (fst (snd (Ready w s r thr))) = bWarmedup s"
  by (simp_all add: Ready_def Let_def)

lemma Processing_keeps:
  "bcfg (fst (snd (Processing w s r thr e))) = bcfg s"
  "bWarmedup (fst (snd (Processing w s r thr e))) = bWarmedup s"
  "breath_start_us (fst (snd (Processing w s r thr e))) = breath_start_us s"
  "cur_peak_voltage (fst (snd (Processing w s r thr e)))
     = max (cur_peak_voltage s) (WindowResult.mean w)"
  by (simp_all add: Processing_def Let_def)

lemma Cooldown_keeps:
  "bcfg (fst (snd (Cooldown w s r thr))) = bcfg s"
  "bWarmedup (fst (snd (Cooldown w s r thr))) = bWarmedup s"
  by (simp_all add: Cooldown_def Let_def)

lemma AnalyzeBreath_bcfg: "bcfg (fst (snd (AnalyzeBreath w s r))) = bcfg s"
  by (cases "breath_state s")
     (simp_all add: AnalyzeBreath_def Let_def split_beta UpdateBaseline_keeps Warmup_keeps
        Ready_keeps Processing_keeps Cooldown_keeps)

lemma AnalyzeBreath_warm:
  assumes "bWarmedup s \<or> breath_state s = St_Warmup"
  shows "bWarmedup (fst (snd (AnalyzeBreath w s r)))
       \<or> breath_state (fst (snd (AnalyzeBreath w s r))) = St_Warmup"
proof (cases "bWarmedup s")
  case False
  then show ?thesis using assms Warmup_keeps(2)
    by (simp add: AnalyzeBreath_def Let_def split_beta)
next
  case True
  then show ?thesis
    by (cases "breath_state s")
       (simp_all add: AnalyzeBreath_def Let_def split_beta UpdateBaseline_keeps
          Ready_keeps Processing_keeps Cooldown_keeps)
qed

lemma AnalyzeBreath_all_warm:
  assumes "bWarmedup s \<or> breath_state s = St_Warmup"
  shows "(bWarmedup (fst (snd (AnalyzeBreath_all ws s r)))
       \<or> breath_state (fst (snd (AnalyzeBreath_all ws s r))) = St_Warmup)
     \<and> bcfg (fst (snd (AnalyzeBreath_all ws s r))) = bcfg s"
  using assms
proof (induction ws arbitrary: s r)
  case Nil
  then show ?case by simp
next
  case (Cons w ws)
  obtain b s1 r1 ev where a: "AnalyzeBreath w s r = (b, s1, r1, ev)"
    by (cases "AnalyzeBreath w s r") auto
  have "bWarmedup s1 \<or> breath_state s1 = St_Warmup" "bcfg s1 = bcfg s"
    using AnalyzeBreath_warm [OF Cons.prems, of w r] AnalyzeBreath_bcfg [of w s r] a by simp_all
  then show ?case using Cons.IH [of s1 r1] a by (simp add: split_beta)
qed

lemma reachable_warm:
  assumes "snd (AnalyzeBreath_all pre (BreathAnalyzer_init b) r_init) = (s, r)"
    and "breath_state s \<noteq> St_Warmup"
  shows "bWarmedup s" and "bcfg s = b"
proof -
  have i: "bWarmedup (BreathAnalyzer_init b) \<or> breath_state (BreathAnalyzer_init b) = St_Warmup"
    by (simp add: BreathAnalyzer_init_def)
  have s: "s = fst (snd (AnalyzeBreath_all pre (BreathAnalyzer_init b) r_init))"
    using assms(1) by simp
  show "bWarmedup s" using AnalyzeBreath_all_warm [OF i, of pre r_init] assms(2) s by simp
  show "bcfg s = b" using AnalyzeBreath_all_warm [OF i, of pre r_init] s
    by (simp add: BreathAnalyzer_init_def)
qed

lemma AnalyzeBreath_in_Processing:
  assumes "bWarmedup s" "breath_state s = St_Processing" "window_end_us w \<noteq> 0"
  shows "AnalyzeBreath w s r =
     Processing w (s\<lparr>bFreezebaseline := True\<rparr>) (r\<lparr>last_window := w\<rparr>)
       (baseline_mean r + end_delta_v (bcfg s) + end_k_sigma (bcfg s) * baseline_std r)
       (BreathEvent_default\<lparr>State := St_Processing\<rparr>)"
  using assms by (simp add: AnalyzeBreath_def Let_def)


lemma AnalyzeBreath_emits:
  assumes "AnalyzeBreath w s r = (True, s', r', ev)"
  shows "bWarmedup s" and "breath_state s = St_Processing" and "window_end_us w \<noteq> 0"
proof -
  show e: "window_end_us w \<noteq> 0" using assms by (auto simp: AnalyzeBreath_def Let_def)
  show w: "bWarmedup s" using assms e
    by (auto simp: AnalyzeBreath_def Let_def split_beta Warmup_def split: if_splits)
  show "breath_state s = St_Processing" using assms e w
    by (cases "breath_state s")
       (auto simp: AnalyzeBreath_def Let_def split_beta Ready_def Cooldown_def split: if_splits)
qed

lemma Processing_emits:
  assumes "Processing w s r thr e = (True, s', r', ev)"
  shows "start_us ev = breath_start_us s" and "end_us ev = window_end_us w"
    and "peak_voltage ev = max (cur_peak_voltage s) (WindowResult.mean w)"
    and "ucast (min_blow_time_us (bcfg s)) \<le> window_end_us w - breath_start_us s"
  using assms by (auto simp: Processing_def Let_def not_less split: if_splits)

lemma Ready_triggers:
  assumes "bWarmedup s" "breath_state s = St_Ready"
    and "breath_state (fst (snd (AnalyzeBreath w s r))) = St_Processing"
  shows "cur_peak_voltage (fst (snd (AnalyzeBreath w s r))) = WindowResult.mean w"
    and "bWarmedup (fst (snd (AnalyzeBreath w s r)))"
proof -
  have e: "window_end_us w \<noteq> 0" using assms by (auto simp: AnalyzeBreath_def Let_def)
  show "cur_peak_voltage (fst (snd (AnalyzeBreath w s r))) = WindowResult.mean w"
    using assms e
    by (auto simp: AnalyzeBreath_def Let_def split_beta Ready_def UpdateBaseline_keeps
        split: if_splits)
  show "bWarmedup (fst (snd (AnalyzeBreath w s r)))"
    using assms e
    by (auto simp: AnalyzeBreath_def Let_def split_beta Ready_keeps UpdateBaseline_keeps)
qed

lemma processing_run_peak:
  assumes "bWarmedup s" "breath_state s = St_Processing" "processing_run ws s r"
  shows "bWarmedup (fst (snd (AnalyzeBreath_all ws s r)))
       \<and> breath_state (fst (snd (AnalyzeBreath_all ws s r))) = St_Processing
       \<and> breath_start_us (fst (snd (AnalyzeBreath_all ws s r))) = breath_start_us s
       \<and> cur_peak_voltage (fst (snd (AnalyzeBreath_all ws s r)))
           = fold max (map WindowResult.mean ws) (cur_peak_voltage s)"
  using assms
proof (induction ws arbitrary: s r)
  case Nil
  then show ?case by simp
next
  case (Cons w ws)
  obtain b s1 r1 ev where a: "AnalyzeBreath w s r = (b, s1, r1, ev)"
    by (cases "AnalyzeBreath w s r") auto
  have e: "window_end_us w \<noteq> 0" and p: "breath_state s1 = St_Processing"
    and run: "processing_run ws s1 r1"
    using Cons.prems(3) a by simp_all
  have s1: "s1 = fst (snd (Processing w (s\<lparr>bFreezebaseline := True\<rparr>) (r\<lparr>last_window := w\<rparr>)
       (baseline_mean r + end_delta_v (bcfg s) + end_k_sigma (bcfg s) * baseline_std r)
       (BreathEvent_default\<lparr>State := St_Processing\<rparr>)))"
    using AnalyzeBreath_in_Processing [OF Cons.prems(1,2) e, of r] a
    by (metis fst_conv snd_conv)
  have k: "bWarmedup s1" "breath_start_us s1 = breath_start_us s"
    "cur_peak_voltage s1 = max (cur_peak_voltage s) (WindowResult.mean w)"
    unfolding s1 using Cons.prems(1) by (simp_all add: Processing_keeps)
  show ?case using Cons.IH [OF k(1) p run] a k by (simp add: split_beta max.commute)
qed


section \<open>Breath state machine: short blows\<close>

text \<open>
  C7: in a state reached from the initial one that is \<open>Processing\<close>, a finalized
  window on which an exit condition holds (mean at most the end threshold, or elapsed
  time at least \<open>max_blow_time_us\<close>) while the elapsed time is below
  \<open>min_blow_time_us\<close> makes \<open>AnalyzeBreath\<close> return false and leaves the machine in
  \<open>Cooldown\<close>. The elapsed time is \<open>window_end_us - breath_start_us\<close> in 64-bit
  unsigned arithmetic, as in the source.
\<close>

theorem C7_short_blow_rejected:
  assumes "snd (AnalyzeBreath_all pre (BreathAnalyzer_init b) r_init) = (s, r)"
    and "breath_state s = St_Processing"
    and "window_end_us w \<noteq> 0"
    and "WindowResult.mean w \<le> baseline_mean r + end_delta_v b + end_k_sigma b * baseline_std r
         \<or> ucast (max_blow_time_us b) \<le> window_end_us w - breath_start_us s"
    and "window_end_us w - breath_start_us s < ucast (min_blow_time_us b)"
  shows "fst (AnalyzeBreath w s r) = False
       \<and> breath_state (fst (snd (AnalyzeBreath w s r))) = St_Cooldown"
proof -
  have k: "bWarmedup s" "bcfg s = b"
    using reachable_warm [OF assms(1)] assms(2) by simp_all
  show ?thesis
    unfolding AnalyzeBreath_in_Processing [OF k(1) assms(2,3)]
    using assms(4,5) k(2) by (auto simp: Processing_def Let_def)
qed

theorem C7_short_blow_rejected_witness:
  "breath_state (fst (example_machine
      [window_of True 1 1000000 1100000, window_of False 2 1100000 1200000])) = St_Processing
   \<and> fst (AnalyzeBreath (window_of False 1 1200000 1300000)
      (fst (example_machine
         [window_of True 1 1000000 1100000, window_of False 2 1100000 1200000]))
      (snd (example_machine
         [window_of True 1 1000000 1100000, window_of False 2 1100000 1200000]))) = False
   \<and> breath_state (fst (snd (AnalyzeBreath (window_of False 1 1200000 1300000)
      (fst (example_machine
         [window_of True 1 1000000 1100000, window_of False 2 1100000 1200000]))
      (snd (example_machine
         [window_of True 1 1000000 1100000, window_of False 2 1100000 1200000]))))) = St_Cooldown"
  using C7_short_blow_rejected
    [where pre = "[window_of True 1 1000000 1100000, window_of False 2 1100000 1200000]"
       and b = "bcfg_default 1" and r_init = BreathResult_default
       and w = "window_of False 1 1200000 1300000"
       and s = "fst (example_machine
          [window_of True 1 1000000 1100000, window_of False 2 1100000 1200000])"
       and r = "snd (example_machine
          [window_of True 1 1000000 1100000, window_of False 2 1100000 1200000])"]
  by (simp add: example_machine_def breath_eval)

section \<open>Breath state machine: the emitted event\<close>

text \<open>
  C10: take a state reached from the initial one that is \<open>Ready\<close>, a window \<open>w_start\<close>
  that moves it to \<open>Processing\<close>, any run \<open>ws\<close> of finalized windows that each leave it
  in \<open>Processing\<close>, and a window \<open>w_end\<close> on which \<open>AnalyzeBreath\<close> returns true. Then the
  event satisfies \<open>end_us - start_us \<ge> min_blow_time_us\<close> (64-bit unsigned
  arithmetic), and its \<open>peak_voltage\<close> is the greatest mean among \<open>w_start\<close>, \<open>ws\<close> and
  \<open>w_end\<close>, so at least the mean of \<open>w_start\<close>.
\<close>

theorem C10_event_duration_and_peak:
  assumes "snd (AnalyzeBreath_all pre (BreathAnalyzer_init b) r_init) = (s_ready, r_ready)"
    and "breath_state s_ready = St_Ready"
    and "AnalyzeBreath w_start s_ready r_ready = (b_start, s_proc, r_proc, e_start)"
    and "breath_state s_proc = St_Processing"
    and "processing_run ws s_proc r_proc"
    and "snd (AnalyzeBreath_all ws s_proc r_proc) = (s_last, r_last)"
    and "AnalyzeBreath w_end s_last r_last = (True, s_out, r_out, ev)"
  shows "ucast (min_blow_time_us b) \<le> end_us ev - start_us ev
       \<and> peak_voltage ev = Max (set (map WindowResult.mean (w_start # ws @ [w_end])))
       \<and> WindowResult.mean w_start \<le> peak_voltage ev"
proof -
  have k0: "bWarmedup s_ready" "bcfg s_ready = b"
    using reachable_warm [OF assms(1)] assms(2) by simp_all
  have s_proc: "s_proc = fst (snd (AnalyzeBreath w_start s_ready r_ready))" using assms(3) by simp
  have k1: "cur_peak_voltage s_proc = WindowResult.mean w_start" "bWarmedup s_proc" "bcfg s_proc = b"
    using Ready_triggers [OF k0(1) assms(2), of w_start r_ready] assms(4) s_proc k0(2)
      AnalyzeBreath_bcfg [of w_start s_ready r_ready] by simp_all
  have s_last: "s_last = fst (snd (AnalyzeBreath_all ws s_proc r_proc))" using assms(6) by simp
  have k2: "bWarmedup s_last" "breath_state s_last = St_Processing"
    "breath_start_us s_last = breath_start_us s_proc"
    "cur_peak_voltage s_last = fold max (map WindowResult.mean ws) (WindowResult.mean w_start)"
    using processing_run_peak [OF k1(2) assms(4,5)] s_last k1(1) by simp_all
  have b2: "bcfg s_last = b"
    using AnalyzeBreath_all_warm [of s_proc ws r_proc] k1(2,3) s_last by simp
  have e: "window_end_us w_end \<noteq> 0" using AnalyzeBreath_emits(3) [OF assms(7)] .
  have p: "Processing w_end (s_last\<lparr>bFreezebaseline := True\<rparr>) (r_last\<lparr>last_window := w_end\<rparr>)
       (baseline_mean r_last + end_delta_v (bcfg s_last) + end_k_sigma (bcfg s_last) * baseline_std r_last)
       (BreathEvent_default\<lparr>State := St_Processing\<rparr>) = (True, s_out, r_out, ev)"
    using AnalyzeBreath_in_Processing [OF k2(1,2) e, of r_last] assms(7) by simp
  have ev: "start_us ev = breath_start_us s_last" "end_us ev = window_end_us w_end"
    "peak_voltage ev = max (cur_peak_voltage s_last) (WindowResult.mean w_end)"
    "ucast (min_blow_time_us b) \<le> window_end_us w_end - breath_start_us s_last"
    using Processing_emits [OF p] b2 by simp_all
  have d: "ucast (min_blow_time_us b) \<le> end_us ev - start_us ev"
    using ev by simp
  have "Max (set (map WindowResult.mean (w_start # ws @ [w_end])))
      = fold max (map WindowResult.mean (ws @ [w_end])) (WindowResult.mean w_start)"
    using Max.set_eq_fold [of "WindowResult.mean w_start" "map WindowResult.mean (ws @ [w_end])"]
    by simp
  also have "\<dots> = max (cur_peak_voltage s_last) (WindowResult.mean w_end)"
    using k2(4) by (simp add: max.commute)
  finally have m: "peak_voltage ev = Max (set (map WindowResult.mean (w_start # ws @ [w_end])))"
    using ev(3) by simp
  have "WindowResult.mean w_start \<le> Max (set (map WindowResult.mean (w_start # ws @ [w_end])))"
    by (rule Max_ge) simp_all
  then show ?thesis using d m by simp
qed


theorem C10_event_duration_and_peak_witness:
  "breath_state (fst (example_machine [window_of True 1 1000000 2000000])) = St_Ready
   \<and> fst (AnalyzeBreath (window_of False 1 4000000 5000000)
      (fst (example_machine
         [window_of True 1 1000000 2000000, window_of False 2 2000000 3000000,
          window_of False 3 3000000 4000000]))
      (snd (example_machine
         [window_of True 1 1000000 2000000, window_of False 2 2000000 3000000,
          window_of False 3 3000000 4000000]))) = True
   \<and> peak_voltage (snd (snd (snd (AnalyzeBreath (window_of False 1 4000000 5000000)
      (fst (example_machine
         [window_of True 1 1000000 2000000, window_of False 2 2000000 3000000,
          window_of False 3 3000000 4000000]))
      (snd (example_machine
         [window_of True 1 1000000 2000000, window_of False 2 2000000 3000000,
          window_of False 3 3000000 4000000])))))) = 3"
  using C10_event_duration_and_peak
    [where pre = "[window_of True 1 1000000 2000000]"
       and b = "bcfg_default 1" and r_init = BreathResult_default
       and s_ready = "fst (example_machine [window_of True 1 1000000 2000000])"
       and r_ready = "snd (example_machine [window_of True 1 1000000 2000000])"
       and w_start = "window_of False 2 2000000 3000000"
       and b_start = False
       and s_proc = "fst (example_machine
          [window_of True 1 1000000 2000000, window_of False 2 2000000 3000000])"
       and r_proc = "snd (example_machine
          [window_of True 1 1000000 2000000, window_of False 2 2000000 3000000])"
       and e_start = "BreathEvent_default\<lparr>State := St_Ready\<rparr>"
       and ws = "[window_of False 3 3000000 4000000]"
       and s_last = "fst (example_machine
          [window_of True 1 1000000 2000000, window_of False 2 2000000 3000000,
           window_of False 3 3000000 4000000])"
       and r_last = "snd (example_machine
          [window_of True 1 1000000 2000000, window_of False 2 2000000 3000000,
           window_of False 3 3000000 4000000])"
       and w_end = "window_of False 1 4000000 5000000"
       and s_out = "fst (snd (AnalyzeBreath (window_of False 1 4000000 5000000)
          (fst (example_machine
             [window_of True 1 1000000 2000000, window_of False 2 2000000 3000000,
              window_of False 3 3000000 4000000]))
          (snd (example_machine
             [window_of True 1 1000000 2000000, window_of False 2 2000000 3000000,
              window_of False 3 3000000 4000000]))))"
       and r_out = "fst (snd (snd (AnalyzeBreath (window_of False 1 4000000 5000000)
          (fst (example_machine
             [window_of True 1 1000000 2000000, window_of False 2 2000000 3000000,
              window_of False 3 3000000 4000000]))
          (snd (example_machine
             [window_of True 1 1000000 2000000, window_of False 2 2000000 3000000,
              window_of False 3 3000000 4000000])))))"
       and ev = "snd (snd (snd (AnalyzeBreath (window_of False 1 4000000 5000000)
          (fst (example_machine
             [window_of True 1 1000000 2000000, window_of False 2 2000000 3000000,
              window_of False 3 3000000 4000000]))
          (snd (example_machine
             [window_of True 1 1000000 2000000, window_of False 2 2000000 3000000,
              window_of False 3 3000000 4000000])))))"]
  by (simp add: example_machine_def breath_eval)

section \<open>Breath state machine: leaving the warm-up\<close>

text \<open>
  C4, on the code: with \<open>warmup_stable_windows = 3\<close>, the first stable window leaves
  the machine in \<open>Warmup\<close> with a count of 2 (the first window is counted when the
  baseline is found and once more by the increment that follows), and the second stable
  window already moves it to \<open>Ready\<close>: one window before the configured count. The
  baseline after the two windows is their exponentially weighted mean.
\<close>

theorem C4_ready_one_window_early:
  "breath_state (fst (snd (AnalyzeBreath_all [window_of True 1 1000000 2000000]
      (BreathAnalyzer_init (bcfg_default 3)) BreathResult_default))) = St_Warmup
   \<and> baseline_stable_count (fst (snd (AnalyzeBreath_all [window_of True 1 1000000 2000000]
      (BreathAnalyzer_init (bcfg_default 3)) BreathResult_default))) = 2
   \<and> breath_state (fst (snd (AnalyzeBreath_all
      [window_of True 1 1000000 2000000, window_of True 2 2000000 3000000]
      (BreathAnalyzer_init (bcfg_default 3)) BreathResult_default))) = St_Ready
   \<and> baseline_mean (snd (snd (AnalyzeBreath_all
      [window_of True 1 1000000 2000000, window_of True 2 2000000 3000000]
      (BreathAnalyzer_init (bcfg_default 3)) BreathResult_default))) = 105 / 100"
  by (simp add: breath_eval)

section \<open>Batch runner: time-out on an empty transport\<close>

lemma run_loop_idle_timeout:
  assumes "bEnableTimeout proc" "g_running (env i)" "popped (env i) = []"
    and "Timeout cc \<le> now_idle (env i) - start"
  shows "run_loop proc cb cc start env i p calls = Some (result_of proc p, p, calls, i)"
  using assms by (subst run_loop.simps) simp

lemma run_loop_idle_continue:
  assumes "g_running (env i)" "popped (env i) = []"
    and "now_idle (env i) - start < Timeout cc"
  shows "run_loop proc cb cc start env i p calls
       = run_loop proc cb cc start env (i + 1) p calls"
  using assms by (subst run_loop.simps) simp

lemma run_loop_empty_transport:
  assumes "bEnableTimeout proc"
    and "\<forall>j \<le> n. g_running (env j) \<and> popped (env j) = []"
    and "\<forall>j < n. now_idle (env j) - start < Timeout cc"
    and "Timeout cc \<le> now_idle (env n) - start"
  shows "i \<le> n \<Longrightarrow>
     run_loop proc cb cc start env i p calls = Some (result_of proc p, p, calls, n)"
proof (induction "n - i" arbitrary: i)
  case 0
  then have "i = n" by simp
  then show ?case using assms run_loop_idle_timeout [of proc env n cc start cb p calls] by simp
next
  case (Suc k)
  then have lt: "i < n" and k: "k = n - (i + 1)" and le: "i + 1 \<le> n" by simp_all
  have "run_loop proc cb cc start env i p calls
      = run_loop proc cb cc start env (i + 1) p calls"
    using assms(2,3) lt by (intro run_loop_idle_continue) simp_all
  then show ?case using Suc.hyps(1) [OF k le] by simp
qed

text \<open>
  C8: a runner whose processor opts into the time-out, on a transport from which
  \<open>pop_batch\<close> takes nothing, with the stop flag not raised: if the clock first shows
  the time-out elapsed at the idle test of pass \<open>n\<close>, then \<open>run\<close> returns on pass
  \<open>n\<close>, its value is the result the processor had when \<open>run\<close> was called, the
  processor is unchanged, and the event callback was called 0 times.
\<close>

theorem C8_timeout_on_empty_transport:
  assumes "bEnableTimeout proc"
    and "\<forall>j \<le> n. g_running (env j) \<and> popped (env j) = []"
    and "\<forall>j < n. now_idle (env j) - start < Timeout cc"
    and "Timeout cc \<le> now_idle (env n) - start"
  shows "run proc on_process_event cc start env p = Some (result_of proc p, p, 0, n)"
  unfolding run_def using run_loop_empty_transport [OF assms, of 0] by simp

theorem C8_timeout_on_empty_transport_witness:
  "run Calibration_Processor id consumer_default 0 empty_transport
     (CalibrationProcess_init (cfg_1s 80 3))
   = Some (WindowResult_default, CalibrationProcess_init (cfg_1s 80 3), 0, 11999)"
  using C8_timeout_on_empty_transport
    [of Calibration_Processor 11999 empty_transport 0 consumer_default id
       "CalibrationProcess_init (cfg_1s 80 3)"]
  by (simp add: Calibration_Processor_def empty_transport_def consumer_default_def
      CalibrationProcess_init_def)


section \<open>Runtime processor: events and the callback\<close>








end
